theory Spec2Isabelle
  imports Main "HOL-Library.Sublist"
begin

section \<open>JavaScript string primitives used by the generator\<close>

text \<open>
  Strings are lists of characters.  The generator only ever handles the printed form of
  GraphQL type references and the names of a schema, which are ASCII.  Three characters
  cannot be written inside a string literal and get a name of their own.
\<close>

abbreviation dq :: char where "dq \<equiv> CHR 0x22"
abbreviation sq :: char where "sq \<equiv> CHR 0x27"
abbreviation nl :: char where "nl \<equiv> CHR 0x0A"

text \<open>\<open>s.includes(p)\<close>: \<open>p\<close> occurs in \<open>s\<close> as a contiguous run of characters.\<close>

fun str_includes :: "string \<Rightarrow> string \<Rightarrow> bool" where
  "str_includes [] p = (p = [])"
| "str_includes (c # cs) p = (prefix p (c # cs) \<or> str_includes cs p)"

text \<open>
  \<open>s.replaceAll(pat, rep)\<close> for a literal pattern, and \<open>s.replace(/pat/g, rep)\<close> for a
  regular expression that is a plain word: every occurrence, found left to right and
  without overlap, is replaced.  All patterns of the source are non-empty; on the empty
  pattern the function below returns \<open>s\<close>.
\<close>

fun replaceAll :: "string \<Rightarrow> string \<Rightarrow> string \<Rightarrow> string" where
  "replaceAll pat rep [] = []"
| "replaceAll pat rep (c # cs) =
     (if pat \<noteq> [] \<and> prefix pat (c # cs)
      then rep @ replaceAll pat rep (drop (length pat) (c # cs))
      else c # replaceAll pat rep cs)"

text \<open>
  The regular expression \<open>/\[(.*)\]/gm\<close>.  The dot matches every character but a line
  terminator, the star is greedy.  \<open>greedyGroup s\<close> is what the group \<open>(.*)\<close> captures when
  the text after an opening bracket is \<open>s\<close>: the dot takes the next character and the rest
  is tried first; when the rest fails the star stops here and the next character has to
  be the closing bracket.  \<open>None\<close> means that there is no match at this opening bracket.
\<close>

definition lineTerminator :: "char \<Rightarrow> bool" where
  "lineTerminator c = (c = CHR 0x0A \<or> c = CHR 0x0D)"

fun greedyGroup :: "string \<Rightarrow> string option" where
  "greedyGroup [] = None"
| "greedyGroup (d # ds) =
     (case (if lineTerminator d then None else greedyGroup ds) of
        Some g \<Rightarrow> Some (d # g)
      | None \<Rightarrow> if d = CHR '']'' then Some [] else None)"

text \<open>
  \<open>s.replaceAll(/\[(.*)\]/gm, "$1" + sfx)\<close>: the matches are found left to right, each
  one is replaced by its group followed by \<open>sfx\<close>, and the search goes on after the
  closing bracket of the match.
\<close>

fun replaceBrackets :: "string \<Rightarrow> string \<Rightarrow> string" where
  "replaceBrackets sfx [] = []"
| "replaceBrackets sfx (c # cs) =
     (if c = CHR ''[''
      then (case greedyGroup cs of
              Some g \<Rightarrow> g @ sfx @ replaceBrackets sfx (drop (Suc (length g)) cs)
            | None \<Rightarrow> c # replaceBrackets sfx cs)
      else c # replaceBrackets sfx cs)"

text \<open>\<open>xs.join(sep)\<close>\<close>

fun join :: "string \<Rightarrow> string list \<Rightarrow> string" where
  "join sep [] = []"
| "join sep [x] = x"
| "join sep (x # y # ys) = x @ sep @ join sep (y # ys)"

text \<open>\<open>c.toLowerCase()\<close> on one ASCII character.\<close>

definition toLowerCase :: "char \<Rightarrow> char" where
  "toLowerCase c =
     (case map_of (zip ''ABCDEFGHIJKLMNOPQRSTUVWXYZ'' ''abcdefghijklmnopqrstuvwxyz'') c of
        Some d \<Rightarrow> d
      | None \<Rightarrow> c)"

section \<open>The schema\<close>

text \<open>
  A field's type is a named type, a list of a type, or a non-null type; \<open>toString\<close> is
  the printed form the GraphQL library gives it, the only thing the generator reads.
\<close>

datatype GraphQLType = Named string | ListT GraphQLType | NonNullT GraphQLType

fun toString :: "GraphQLType \<Rightarrow> string" where
  "toString (Named n) = n"
| "toString (ListT t) = ''['' @ toString t @ '']''"
| "toString (NonNullT t) = toString t @ ''!''"

fun baseName :: "GraphQLType \<Rightarrow> string" where
  "baseName (Named n) = n"
| "baseName (ListT t) = baseName t"
| "baseName (NonNullT t) = baseName t"

text \<open>
  The named types of a schema.  Fields are kept in declaration order as pairs of the
  field name and the field type; enum values as pairs of name and value; a union keeps
  the names of its members.  Input objects are the one kind of named type the generator
  has no branch for.
\<close>

datatype GraphQLNamedType =
    GraphQLObjectType string "(string \<times> GraphQLType) list"
  | GraphQLEnumType string "(string \<times> string) list"
  | GraphQLScalarType string
  | GraphQLInterfaceType string "(string \<times> GraphQLType) list"
  | GraphQLUnionType string "string list"
  | GraphQLInputObjectType string "(string \<times> GraphQLType) list"

fun name :: "GraphQLNamedType \<Rightarrow> string" where
  "name (GraphQLObjectType n fs) = n"
| "name (GraphQLEnumType n vs) = n"
| "name (GraphQLScalarType n) = n"
| "name (GraphQLInterfaceType n fs) = n"
| "name (GraphQLUnionType n ms) = n"
| "name (GraphQLInputObjectType n fs) = n"

fun isObjectType :: "GraphQLNamedType \<Rightarrow> bool" where
  "isObjectType (GraphQLObjectType n fs) = True"
| "isObjectType t = False"

fun isEnumType :: "GraphQLNamedType \<Rightarrow> bool" where
  "isEnumType (GraphQLEnumType n vs) = True"
| "isEnumType t = False"

fun isScalarType :: "GraphQLNamedType \<Rightarrow> bool" where
  "isScalarType (GraphQLScalarType n) = True"
| "isScalarType t = False"

fun isInterfaceType :: "GraphQLNamedType \<Rightarrow> bool" where
  "isInterfaceType (GraphQLInterfaceType n fs) = True"
| "isInterfaceType t = False"

fun isUnionType :: "GraphQLNamedType \<Rightarrow> bool" where
  "isUnionType (GraphQLUnionType n ms) = True"
| "isUnionType t = False"

text \<open>A GraphQL name: a letter or underscore, then letters, digits and underscores.\<close>

definition nameStart :: "char \<Rightarrow> bool" where
  "nameStart c =
     (c \<in> set ''_ABCDEFGHIJKLMNOPQRSTUVWXYZabcdefghijklmnopqrstuvwxyz'')"

definition nameChar :: "char \<Rightarrow> bool" where
  "nameChar c = (nameStart c \<or> c \<in> set ''0123456789'')"

definition validName :: "string \<Rightarrow> bool" where
  "validName n = (case n of [] \<Rightarrow> False | c # cs \<Rightarrow> nameStart c \<and> list_all nameChar cs)"

section \<open>The generator\<close>

definition scalarTypeMap :: "string list" where
  "scalarTypeMap =
     [''String'', ''Int'', ''Float'', ''Boolean'', ''ID'', ''NaiveTime'', ''NaiveDate'',
      ''NaiveDateTime'']"

definition ignoreFields :: "string list" where
  "ignoreFields = [''string'', ''number'', ''boolean'']"

definition mapGraphQLTypeToTSType :: "string \<Rightarrow> string" where
  "mapGraphQLTypeToTSType graphqlType =
     replaceAll ''NaiveDate'' ''UTCDate''
      (replaceAll ''NaiveTime'' ''UTCDate''
        (replaceAll ''NaiveDateTime'' ''UTCDate''
          (replaceAll ''ID'' ''string''
            (replaceAll ''Boolean'' ''boolean''
              (replaceAll ''Float'' ''number''
                (replaceAll ''Int'' ''number''
                  (replaceAll ''String'' ''string'' graphqlType)))))))"

definition mapGraphQLScalarToTSType :: "string \<Rightarrow> string" where
  "mapGraphQLScalarToTSType scalarName =
     (if scalarName = ''String'' then ''string''
      else if scalarName = ''Int'' \<or> scalarName = ''Float'' then ''number''
      else if scalarName = ''Boolean'' then ''boolean''
      else if scalarName = ''ID'' then ''string''
      else if scalarName = ''NaiveDateTime'' then ''UTCDate''
      else if scalarName = ''NaiveTime'' then ''UTCDate''
      else if scalarName = ''NaiveDate'' then ''UTCDate''
      else ''any'')"

fun lowercaseFirstLetter :: "string \<Rightarrow> string" where
  "lowercaseFirstLetter [] = []"
| "lowercaseFirstLetter (c # cs) = toLowerCase c # cs"

subsection \<open>One field of an object type\<close>

text \<open>The two local constants of the callback: \<open>tsType\<close> as first computed, and \<open>cleanedType\<close>.\<close>

definition tsTypeOf :: "GraphQLType \<Rightarrow> string" where
  "tsTypeOf ty = mapGraphQLTypeToTSType (toString ty)"

definition cleanedTypeOf :: "GraphQLType \<Rightarrow> string" where
  "cleanedTypeOf ty = replaceAll ''!'' [] (replaceBrackets [] (tsTypeOf ty))"

definition utcImport :: string where
  "utcImport = ''import type {UTCDate} from '' @ [sq] @ ''@date-fns/utc'' @ [sq] @ '';'' @ [nl]"

definition enumImport :: "string \<Rightarrow> string" where
  "enumImport cleanedType =
     ''import {'' @ cleanedType @ ''} from '' @ [dq] @ ''./enums/''
       @ lowercaseFirstLetter cleanedType @ [dq] @ '';'' @ [nl]"

definition typeImport :: "string \<Rightarrow> string" where
  "typeImport cleanedType =
     ''import type {'' @ cleanedType @ ''} from '' @ [dq] @ ''./''
       @ lowercaseFirstLetter cleanedType @ [dq] @ '';'' @ [nl]"

text \<open>
  What the callback appends to \<open>imports\<close> for a field of type \<open>ty\<close>: \<open>type\<close> is the type
  being declared, \<open>enumTypes\<close> the global registry, \<open>imports\<close> the text accumulated so far.
\<close>

definition fieldImport ::
  "GraphQLNamedType \<Rightarrow> string list \<Rightarrow> string \<Rightarrow> GraphQLType \<Rightarrow> string" where
  "fieldImport type enumTypes imports ty =
     (let tsType = tsTypeOf ty; cleanedType = cleanedTypeOf ty in
      if str_includes tsType ''UTCDate''
      then (if \<not> str_includes imports ''UTCDate'' then utcImport else [])
      else if \<not> str_includes imports cleanedType
      then (if \<not> (isScalarType type \<or> cleanedType \<in> set ignoreFields)
            then (if cleanedType \<in> set enumTypes then enumImport cleanedType
                  else typeImport cleanedType)
            else [])
      else [])"

text \<open>The property line the callback returns.\<close>

definition fieldLine :: "string \<Rightarrow> GraphQLType \<Rightarrow> string" where
  "fieldLine fieldName ty =
     (let tsType = replaceBrackets ''[]'' (tsTypeOf ty) in
      if str_includes tsType ''!''
      then ''  '' @ fieldName @ '': '' @ replaceAll ''!'' [] tsType @ '';''
      else ''  '' @ fieldName @ ''?: '' @ tsType @ '';'')"

text \<open>
  The \<open>map\<close> over the fields of an object type, with the variable \<open>imports\<close> threaded
  through: the result is the final import text and the list of property lines.
\<close>

fun objectFields ::
  "GraphQLNamedType \<Rightarrow> string list \<Rightarrow> string \<Rightarrow> (string \<times> GraphQLType) list
     \<Rightarrow> string \<times> string list" where
  "objectFields type enumTypes imports [] = (imports, [])"
| "objectFields type enumTypes imports ((fieldName, ty) # fs) =
     (case objectFields type enumTypes (imports @ fieldImport type enumTypes imports ty) fs of
        (imports', fieldLines) \<Rightarrow> (imports', fieldLine fieldName ty # fieldLines))"

subsection \<open>One named type\<close>

fun generateTypeScriptForType :: "string list \<Rightarrow> GraphQLNamedType \<Rightarrow> string" where
  "generateTypeScriptForType enumTypes (GraphQLObjectType n fs) =
     (case objectFields (GraphQLObjectType n fs) enumTypes [] fs of
        (imports, fieldLines) \<Rightarrow>
          imports @ [nl] @ ''export interface '' @ n @ '' {'' @ [nl]
            @ join [nl] fieldLines @ [nl] @ ''}'')"
| "generateTypeScriptForType enumTypes (GraphQLEnumType n vs) =
     ''export enum '' @ n @ '' {'' @ [nl]
       @ join ('','' @ [nl]) (map (\<lambda>(vn, vv). ''  '' @ vn @ '' = '' @ [dq] @ vv @ [dq]) vs)
       @ [nl] @ ''}''"
| "generateTypeScriptForType enumTypes (GraphQLScalarType n) =
     ''export type '' @ n @ '' = '' @ mapGraphQLScalarToTSType n @ '';''"
| "generateTypeScriptForType enumTypes (GraphQLInterfaceType n fs) =
     ''export interface '' @ n @ '' {'' @ [nl]
       @ join [nl] (map (\<lambda>(fieldName, ty). ''  '' @ fieldName @ '': '' @ tsTypeOf ty @ '';'') fs)
       @ [nl] @ ''}''"
| "generateTypeScriptForType enumTypes (GraphQLUnionType n ms) =
     ''export type '' @ n @ '' = '' @ join '' | '' ms @ '';''"
| "generateTypeScriptForType enumTypes (GraphQLInputObjectType n fs) = []"

subsection \<open>The two passes over the type map\<close>

text \<open>
  The state of a run: the global \<open>enumTypes\<close>, and the files written so far, each with
  the arguments given to \<open>path.join\<close> and the text.  The type map is an object whose keys
  are the type names; the loops visit its entries in order.
\<close>

record runState =
  enumTypes :: "string list"
  written :: "(string list \<times> string) list"

definition enumStep ::
  "string list \<Rightarrow> string \<Rightarrow> runState \<Rightarrow> string \<times> GraphQLNamedType \<Rightarrow> runState" where
  "enumStep ignore outDir st entry =
     (case entry of (typeName, type) \<Rightarrow>
        if prefix ''__'' typeName then st
        else if typeName \<in> set ignore then st
        else if isScalarType type \<and> name type \<in> set scalarTypeMap then st
        else if \<not> isEnumType type then st
        else (let tsContent = generateTypeScriptForType (enumTypes st) type in
              if tsContent \<noteq> []
              then st\<lparr>enumTypes := enumTypes st @ [name type],
                      written := written st
                        @ [([outDir, ''enums'', lowercaseFirstLetter (name type) @ ''.ts''],
                            tsContent)]\<rparr>
              else st))"

definition restStep ::
  "string list \<Rightarrow> string \<Rightarrow> runState \<Rightarrow> string \<times> GraphQLNamedType \<Rightarrow> runState" where
  "restStep ignore outDir st entry =
     (case entry of (typeName, type) \<Rightarrow>
        if prefix ''__'' typeName then st
        else if typeName \<in> set ignore then st
        else if isScalarType type \<and> name type \<in> set scalarTypeMap then st
        else if isEnumType type then st
        else (let tsContent = generateTypeScriptForType (enumTypes st) type in
              if tsContent \<noteq> []
              then st\<lparr>written := written st
                        @ [([outDir, lowercaseFirstLetter (name type) @ ''.ts''], tsContent)]\<rparr>
              else st))"

definition enumPass ::
  "string list \<Rightarrow> string \<Rightarrow> (string \<times> GraphQLNamedType) list \<Rightarrow> runState \<Rightarrow> runState" where
  "enumPass ignore outDir typeMap st = foldl (enumStep ignore outDir) st typeMap"

definition restPass ::
  "string list \<Rightarrow> string \<Rightarrow> (string \<times> GraphQLNamedType) list \<Rightarrow> runState \<Rightarrow> runState" where
  "restPass ignore outDir typeMap st = foldl (restStep ignore outDir) st typeMap"

text \<open>
  The part of \<open>main\<close> after the schema has been read: both passes, from the empty registry.
\<close>

definition main :: "string list \<Rightarrow> string \<Rightarrow> (string \<times> GraphQLNamedType) list \<Rightarrow> runState" where
  "main ignore outDir typeMap =
     restPass ignore outDir typeMap
       (enumPass ignore outDir typeMap \<lparr>enumTypes = [], written = []\<rparr>)"

section \<open>Notions used to state the properties\<close>

text \<open>
  The text that each field of an object type appends to \<open>imports\<close>, field by field (the
  empty string when it appends nothing).
\<close>

fun emittedImports ::
  "GraphQLNamedType \<Rightarrow> string list \<Rightarrow> string \<Rightarrow> (string \<times> GraphQLType) list
     \<Rightarrow> string list" where
  "emittedImports type enums imports [] = []"
| "emittedImports type enums imports ((fieldName, ty) # fs) =
     fieldImport type enums imports ty
       # emittedImports type enums (imports @ fieldImport type enums imports ty) fs"

text \<open>The number of list wrappers of a type reference.\<close>

fun listDepth :: "GraphQLType \<Rightarrow> nat" where
  "listDepth (Named n) = 0"
| "listDepth (ListT t) = Suc (listDepth t)"
| "listDepth (NonNullT t) = listDepth t"

text \<open>
  \<open>decorated m s\<close>: the string \<open>s\<close> is \<open>m\<close> with opening brackets before it and closing
  brackets and non-null markers after it.  \<open>plain m\<close>: none of these three characters
  occurs in \<open>m\<close>.
\<close>

definition decorated :: "string \<Rightarrow> string \<Rightarrow> bool" where
  "decorated m s =
     (\<exists>a z. s = a @ m @ z \<and> set a \<subseteq> {CHR ''[''} \<and> set z \<subseteq> {CHR '']'', CHR ''!''})"

definition plain :: "string \<Rightarrow> bool" where
  "plain m = (CHR ''['' \<notin> set m \<and> CHR '']'' \<notin> set m \<and> CHR ''!'' \<notin> set m)"

section \<open>Strings: occurrence, replacement, the bracket expression\<close>

lemma str_includes_sublist: "str_includes s p \<longleftrightarrow> sublist p s"
  by (induction s) (simp_all add: sublist_Cons_right)

lemma prefix_append_avoid:
  "x \<notin> set p \<Longrightarrow> prefix p (u @ x # t) \<longleftrightarrow> prefix p u"
  by (auto simp: prefix_append prefix_Cons)

lemma sublist_avoid:
  "x \<notin> set p \<Longrightarrow> sublist p (s @ x # t) \<longleftrightarrow> sublist p s \<or> sublist p t"
proof (induction s)
  case Nil
  then show ?case by (auto simp: sublist_Cons_right prefix_Cons)
next
  case (Cons a s)
  have "prefix p ((a # s) @ x # t) \<longleftrightarrow> prefix p (a # s)"
    using Cons.prems by (rule prefix_append_avoid)
  then show ?case using Cons by (auto simp: sublist_Cons_right)
qed

lemma sublist_filter:
  "sublist p s \<Longrightarrow> \<forall>x\<in>set p. P x \<Longrightarrow> sublist p (filter P s)"
proof -
  assume a: "sublist p s" and b: "\<forall>x\<in>set p. P x"
  from a obtain ps ss where "s = ps @ p @ ss" by (auto simp: sublist_def)
  moreover from b have "filter P p = p" by (simp add: filter_id_conv)
  ultimately show ?thesis by simp
qed

subsection \<open>replaceAll\<close>

lemma replaceAll_Cons_avoid:
  "c \<notin> set pat \<Longrightarrow> replaceAll pat rep (c # s) = c # replaceAll pat rep s"
  by (auto simp: prefix_Cons)

lemma replaceAll_avoid:
  "set t \<inter> set pat = {} \<Longrightarrow> replaceAll pat rep t = t"
  by (induction t) (auto simp: prefix_Cons)

lemma replaceAll_snoc_avoid:
  "c \<notin> set pat \<Longrightarrow> replaceAll pat rep (s @ [c]) = replaceAll pat rep s @ [c]"
proof (induction pat rep s rule: replaceAll.induct)
  case (1 pat rep)
  then show ?case by (auto simp: prefix_Cons)
next
  case (2 pat rep d ds)
  have pre: "prefix pat ((d # ds) @ [c]) \<longleftrightarrow> prefix pat (d # ds)"
    using "2.prems" by (rule prefix_append_avoid)
  show ?case
  proof (cases "pat \<noteq> [] \<and> prefix pat (d # ds)")
    case True
    then have len: "length pat \<le> length (d # ds)" by (auto dest: prefix_length_le)
    have "replaceAll pat rep (drop (length pat) (d # ds) @ [c])
            = replaceAll pat rep (drop (length pat) (d # ds)) @ [c]"
      using "2.IH"(1) True "2.prems" by simp
    moreover have "drop (length pat) ((d # ds) @ [c]) = drop (length pat) (d # ds) @ [c]"
      using len by (simp only: drop_append) simp
    ultimately have "rep @ replaceAll pat rep (drop (length pat) ((d # ds) @ [c]))
            = (rep @ replaceAll pat rep (drop (length pat) (d # ds))) @ [c]"
      by simp
    moreover have "replaceAll pat rep ((d # ds) @ [c])
            = rep @ replaceAll pat rep (drop (length pat) ((d # ds) @ [c]))"
      using True pre by (simp del: drop_Suc_Cons)
    moreover have "replaceAll pat rep (d # ds)
            = rep @ replaceAll pat rep (drop (length pat) (d # ds))"
      using True by (simp del: drop_Suc_Cons)
    ultimately show ?thesis by simp
  next
    case False
    then show ?thesis using "2.IH"(2) "2.prems" pre by auto
  qed
qed

lemma replaceAll_list_all:
  "list_all P s \<Longrightarrow> list_all P rep \<Longrightarrow> list_all P (replaceAll pat rep s)"
proof (induction pat rep s rule: replaceAll.induct)
  case (1 pat rep)
  then show ?case by simp
next
  case (2 pat rep d ds)
  have "list_all P (drop (length pat) (d # ds))"
    using "2.prems"(1) by (metis list_all_iff set_drop_subset subsetD)
  then show ?case using 2 by (auto simp del: drop_Suc_Cons)
qed

lemma replaceAll_single:
  "replaceAll [c] [] s = filter (\<lambda>x. x \<noteq> c) s"
  by (induction s) (auto simp: prefix_Cons)

subsection \<open>The bracket expression\<close>

lemma greedyGroup_Some:
  "greedyGroup s = Some g \<Longrightarrow> \<exists>post. s = g @ CHR '']'' # post"
  by (induction s arbitrary: g) (auto split: option.splits if_splits)

lemma replaceBrackets_no_open:
  "CHR ''['' \<notin> set u \<Longrightarrow> replaceBrackets sfx (u @ r) = u @ replaceBrackets sfx r"
  by (induction u) auto

lemma replaceBrackets_id:
  "CHR ''['' \<notin> set u \<Longrightarrow> replaceBrackets sfx u = u"
  using replaceBrackets_no_open [of u sfx "[]"] by simp

lemma sublist_replaceBrackets:
  "sublist p s \<Longrightarrow> CHR ''['' \<notin> set p \<Longrightarrow> CHR '']'' \<notin> set p
     \<Longrightarrow> sublist p (replaceBrackets sfx s)"
proof (induction sfx s rule: replaceBrackets.induct)
  case (1 sfx)
  then show ?case by simp
next
  case (2 sfx c cs)
  show ?case
  proof (cases "c = CHR ''[''")
    case True
    have sub: "sublist p cs"
      using "2.prems"(1,2) sublist_avoid [of c p "[]" cs] True by auto
    show ?thesis
    proof (cases "greedyGroup cs")
      case None
      then show ?thesis using "2.IH"(1) [OF True None sub "2.prems"(2,3)] True
        by (auto intro: sublist_Cons_right [THEN iffD2])
    next
      case (Some g)
      then obtain post where cs: "cs = g @ CHR '']'' # post"
        using greedyGroup_Some by blast
      then have dr: "drop (Suc (length g)) cs = post" by simp
      from sub cs "2.prems"(3) have "sublist p g \<or> sublist p post"
        by (simp add: sublist_avoid)
      then show ?thesis
      proof
        assume "sublist p g"
        then show ?thesis using True Some
          by (auto intro: sublist_order.order.trans)
      next
        assume "sublist p post"
        then have "sublist p (replaceBrackets sfx post)"
          using "2.IH"(2) [OF True Some] dr "2.prems"(2,3) by simp
        then have "sublist p (g @ sfx @ replaceBrackets sfx post)"
          by (metis append.assoc sublist_append_leftI sublist_order.order.trans)
        then show ?thesis using True Some dr by simp
      qed
    qed
  next
    case False
    from "2.prems"(1) have "prefix p (c # cs) \<or> sublist p cs"
      by (simp add: sublist_Cons_right)
    then show ?thesis
    proof
      assume pre: "prefix p (c # cs)"
      show ?thesis
      proof (cases p)
        case Nil
        then show ?thesis by simp
      next
        case (Cons a p')
        with pre obtain r where "cs = p' @ r" and "a = c" by (auto simp: prefix_def)
        moreover have "CHR ''['' \<notin> set p'" using "2.prems"(2) Cons by simp
        ultimately have "replaceBrackets sfx (c # cs) = p @ replaceBrackets sfx r"
          using False Cons by (simp add: replaceBrackets_no_open)
        then show ?thesis by simp
      qed
    next
      assume "sublist p cs"
      then have "sublist p (replaceBrackets sfx cs)"
        using "2.IH"(3) [OF False] "2.prems"(2,3) by simp
      then show ?thesis using False by (simp add: sublist_Cons_right)
    qed
  qed
qed

subsection \<open>The printed form and its rendering\<close>

lemma mapGraphQLTypeToTSType_open:
  "mapGraphQLTypeToTSType (CHR ''['' # s) = CHR ''['' # mapGraphQLTypeToTSType s"
  by (simp add: mapGraphQLTypeToTSType_def replaceAll_Cons_avoid)

lemma mapGraphQLTypeToTSType_close:
  "mapGraphQLTypeToTSType (s @ '']'') = mapGraphQLTypeToTSType s @ '']''"
  by (simp add: mapGraphQLTypeToTSType_def replaceAll_snoc_avoid)

lemma mapGraphQLTypeToTSType_bang:
  "mapGraphQLTypeToTSType (s @ ''!'') = mapGraphQLTypeToTSType s @ ''!''"
  by (simp add: mapGraphQLTypeToTSType_def replaceAll_snoc_avoid)

lemma tsTypeOf_Named: "tsTypeOf (Named n) = mapGraphQLTypeToTSType n"
  by (simp add: tsTypeOf_def)

lemma tsTypeOf_ListT: "tsTypeOf (ListT t) = ''['' @ tsTypeOf t @ '']''"
  by (simp add: tsTypeOf_def mapGraphQLTypeToTSType_open mapGraphQLTypeToTSType_close)

lemma tsTypeOf_NonNullT: "tsTypeOf (NonNullT t) = tsTypeOf t @ ''!''"
  by (simp add: tsTypeOf_def mapGraphQLTypeToTSType_bang)

lemma decorated_tsTypeOf: "decorated (mapGraphQLTypeToTSType (baseName t)) (tsTypeOf t)"
proof (induction t)
  case (Named n)
  have "mapGraphQLTypeToTSType n = [] @ mapGraphQLTypeToTSType n @ []" by simp
  then show ?case unfolding decorated_def tsTypeOf_Named baseName.simps by (metis empty_set empty_subsetI)
next
  case (ListT t)
  then obtain a z where s: "tsTypeOf t = a @ mapGraphQLTypeToTSType (baseName t) @ z"
    and a: "set a \<subseteq> {CHR ''[''}" and z: "set z \<subseteq> {CHR '']'', CHR ''!''}"
    by (auto simp: decorated_def)
  have "tsTypeOf (ListT t) = (CHR ''['' # a) @ mapGraphQLTypeToTSType (baseName t) @ (z @ '']'')"
    by (simp add: tsTypeOf_ListT s)
  moreover have "set (CHR ''['' # a) \<subseteq> {CHR ''[''}" using a by simp
  moreover have "set (z @ '']'') \<subseteq> {CHR '']'', CHR ''!''}" using z by simp
  ultimately show ?case unfolding decorated_def baseName.simps by blast
next
  case (NonNullT t)
  then obtain a z where s: "tsTypeOf t = a @ mapGraphQLTypeToTSType (baseName t) @ z"
    and a: "set a \<subseteq> {CHR ''[''}" and z: "set z \<subseteq> {CHR '']'', CHR ''!''}"
    by (auto simp: decorated_def)
  have "tsTypeOf (NonNullT t) = a @ mapGraphQLTypeToTSType (baseName t) @ (z @ ''!'')"
    by (simp add: tsTypeOf_NonNullT s)
  moreover have "set (z @ ''!'') \<subseteq> {CHR '']'', CHR ''!''}" using z by simp
  ultimately show ?case unfolding decorated_def baseName.simps using a by blast
qed

lemma sublist_strip_front:
  "set a \<inter> set p = {} \<Longrightarrow> p \<noteq> [] \<Longrightarrow> sublist p (a @ s) \<longleftrightarrow> sublist p s"
proof (induction a)
  case Nil
  then show ?case by simp
next
  case (Cons x a)
  then have "x \<notin> set p" by auto
  then have "sublist p ([] @ x # (a @ s)) \<longleftrightarrow> sublist p [] \<or> sublist p (a @ s)"
    by (rule sublist_avoid)
  then show ?case using Cons by auto
qed

lemma sublist_strip_back:
  "set z \<inter> set p = {} \<Longrightarrow> p \<noteq> [] \<Longrightarrow> sublist p (s @ z) \<longleftrightarrow> sublist p s"
proof (induction z)
  case Nil
  then show ?case by simp
next
  case (Cons x z)
  then have "x \<notin> set p" by auto
  then have "sublist p (s @ x # z) \<longleftrightarrow> sublist p s \<or> sublist p z"
    by (rule sublist_avoid)
  moreover have "sublist p z \<longleftrightarrow> sublist p []"
    using Cons sublist_strip_front [of z p "[]"] by auto
  ultimately show ?case using Cons.prems by auto
qed

lemma decorated_sublist:
  assumes "decorated m s" and "p \<noteq> []"
    and "CHR ''['' \<notin> set p" and "CHR '']'' \<notin> set p" and "CHR ''!'' \<notin> set p"
  shows "sublist p s \<longleftrightarrow> sublist p m"
proof -
  from assms(1) obtain a z where s: "s = a @ m @ z"
    and a: "set a \<subseteq> {CHR ''[''}" and z: "set z \<subseteq> {CHR '']'', CHR ''!''}"
    by (auto simp: decorated_def)
  have "set a \<inter> set p = {}" using a assms(3) by auto
  moreover have "set z \<inter> set p = {}" using z assms(4,5) by auto
  ultimately show ?thesis
    using s assms(2) sublist_strip_front [of a p "m @ z"] sublist_strip_back [of z p m]
    by simp
qed

lemma split_at_first:
  "xs @ ys = g @ c # post \<Longrightarrow> c \<notin> set xs \<Longrightarrow> \<exists>z1. g = xs @ z1 \<and> ys = z1 @ c # post"
proof (induction xs arbitrary: g)
  case Nil
  then show ?case by simp
next
  case (Cons x xs)
  then obtain g' where "g = x # g'" by (cases g) auto
  then show ?case using Cons by auto
qed

lemma decorated_replaceBrackets:
  assumes "decorated m s" and "plain m"
  shows "decorated m (replaceBrackets [] s)"
proof -
  from assms(1) obtain a z where s: "s = a @ m @ z"
    and a: "set a \<subseteq> {CHR ''[''}" and z: "set z \<subseteq> {CHR '']'', CHR ''!''}"
    by (auto simp: decorated_def)
  from a z assms(2) show ?thesis unfolding s
  proof (induction a)
    case Nil
    have "CHR ''['' \<notin> set (m @ z)" using Nil by (auto simp: plain_def)
    then have "replaceBrackets [] (m @ z) = [] @ m @ z" by (simp add: replaceBrackets_id)
    then show ?case unfolding decorated_def using Nil(2) by (metis append_Nil empty_set empty_subsetI)
  next
    case (Cons x a)
    then have x: "x = CHR ''[''" and a: "set a \<subseteq> {CHR ''[''}" by auto
    show ?case
    proof (cases "greedyGroup (a @ m @ z)")
      case None
      have "decorated m (replaceBrackets [] (a @ m @ z))" using Cons.IH a Cons.prems by simp
      then obtain a' z' where "replaceBrackets [] (a @ m @ z) = a' @ m @ z'"
        and "set a' \<subseteq> {CHR ''[''}" and "set z' \<subseteq> {CHR '']'', CHR ''!''}"
        by (auto simp: decorated_def)
      then have "replaceBrackets [] ((x # a) @ m @ z) = (x # a') @ m @ z'
          \<and> set (x # a') \<subseteq> {CHR ''[''} \<and> set z' \<subseteq> {CHR '']'', CHR ''!''}"
        using x None by simp
      then show ?thesis unfolding decorated_def by blast
    next
      case (Some g)
      then obtain post where eq: "a @ m @ z = g @ CHR '']'' # post"
        using greedyGroup_Some by blast
      have nb: "CHR '']'' \<notin> set (a @ m)" using a Cons.prems(3) by (auto simp: plain_def)
      have "\<exists>z1. g = (a @ m) @ z1 \<and> z = z1 @ CHR '']'' # post"
        using eq nb split_at_first [of "a @ m" z g "CHR '']''" post] by simp
      then obtain z1 where g: "g = a @ m @ z1" and zz: "z = z1 @ CHR '']'' # post" by auto
      have post: "set post \<subseteq> {CHR '']'', CHR ''!''}" and z1: "set z1 \<subseteq> {CHR '']'', CHR ''!''}"
        using Cons.prems(2) zz by auto
      then have "CHR ''['' \<notin> set post" by auto
      then have rp: "replaceBrackets [] post = post" by (rule replaceBrackets_id)
      have "drop (Suc (length g)) (a @ m @ z) = post" using eq by simp
      then have "replaceBrackets [] ((x # a) @ m @ z) = a @ m @ (z1 @ post)"
        using x Some rp g by simp
      moreover have "set (z1 @ post) \<subseteq> {CHR '']'', CHR ''!''}" using post z1 by simp
      ultimately show ?thesis unfolding decorated_def using a by blast
    qed
  qed
qed

lemma decorated_filter:
  assumes "decorated m s" and "plain m"
  shows "decorated m (filter (\<lambda>x. x \<noteq> CHR ''!'') s)"
proof -
  from assms(1) obtain a z where s: "s = a @ m @ z"
    and a: "set a \<subseteq> {CHR ''[''}" and z: "set z \<subseteq> {CHR '']'', CHR ''!''}"
    by (auto simp: decorated_def)
  have "filter (\<lambda>x. x \<noteq> CHR ''!'') m = m" using assms(2) by (auto simp: plain_def filter_id_conv)
  then have "filter (\<lambda>x. x \<noteq> CHR ''!'') s
      = filter (\<lambda>x. x \<noteq> CHR ''!'') a @ m @ filter (\<lambda>x. x \<noteq> CHR ''!'') z"
    by (simp add: s)
  moreover have "set (filter (\<lambda>x. x \<noteq> CHR ''!'') a) \<subseteq> {CHR ''[''}" using a by auto
  moreover have "set (filter (\<lambda>x. x \<noteq> CHR ''!'') z) \<subseteq> {CHR '']'', CHR ''!''}" using z by auto
  ultimately show ?thesis unfolding decorated_def by blast
qed

lemma decorated_cleanedTypeOf:
  "plain (mapGraphQLTypeToTSType (baseName t))
     \<Longrightarrow> decorated (mapGraphQLTypeToTSType (baseName t)) (cleanedTypeOf t)"
  unfolding cleanedTypeOf_def replaceAll_single
  by (intro decorated_filter decorated_replaceBrackets decorated_tsTypeOf)

lemma nameChar_mapGraphQLTypeToTSType:
  "list_all nameChar s \<Longrightarrow> list_all nameChar (mapGraphQLTypeToTSType s)"
  unfolding mapGraphQLTypeToTSType_def
  by (intro replaceAll_list_all) (simp_all add: nameChar_def nameStart_def)

lemma validName_plain: "validName n \<Longrightarrow> plain (mapGraphQLTypeToTSType n)"
proof -
  assume "validName n"
  then have "list_all nameChar n"
    by (auto simp: validName_def nameChar_def split: list.splits)
  then have "list_all nameChar (mapGraphQLTypeToTSType n)"
    by (rule nameChar_mapGraphQLTypeToTSType)
  moreover have "\<not> nameChar CHR ''[''" "\<not> nameChar CHR '']''" "\<not> nameChar CHR ''!''"
    by (simp_all add: nameChar_def nameStart_def)
  ultimately show ?thesis unfolding plain_def list_all_iff by blast
qed

lemma UTCDate_cleaned_iff:
  assumes "validName (baseName t)"
  shows "str_includes (cleanedTypeOf t) ''UTCDate'' \<longleftrightarrow> str_includes (tsTypeOf t) ''UTCDate''"
proof -
  have p: "plain (mapGraphQLTypeToTSType (baseName t))" using assms by (rule validName_plain)
  have "sublist ''UTCDate'' (cleanedTypeOf t)
      \<longleftrightarrow> sublist ''UTCDate'' (mapGraphQLTypeToTSType (baseName t))"
    by (rule decorated_sublist [OF decorated_cleanedTypeOf [OF p]]) simp_all
  moreover have "sublist ''UTCDate'' (tsTypeOf t)
      \<longleftrightarrow> sublist ''UTCDate'' (mapGraphQLTypeToTSType (baseName t))"
    by (rule decorated_sublist [OF decorated_tsTypeOf]) simp_all
  ultimately show ?thesis by (simp add: str_includes_sublist)
qed

lemma UTCDate_cleaned:
  "str_includes (tsTypeOf t) ''UTCDate'' \<Longrightarrow> str_includes (cleanedTypeOf t) ''UTCDate''"
  unfolding str_includes_sublist cleanedTypeOf_def replaceAll_single
  by (intro sublist_filter sublist_replaceBrackets) simp_all

lemma toLowerCase_not_upper_U: "toLowerCase c \<noteq> CHR ''U''"
  by (simp add: toLowerCase_def)

lemma UTCDate_lowercaseFirstLetter:
  assumes "sublist ''UTCDate'' (lowercaseFirstLetter c)"
  shows "sublist ''UTCDate'' c"
proof (cases c)
  case Nil
  then show ?thesis using assms by simp
next
  case (Cons a cs)
  from assms have "prefix ''UTCDate'' (toLowerCase a # cs) \<or> sublist ''UTCDate'' cs"
    using Cons by (simp add: sublist_Cons_right)
  moreover have "\<not> prefix ''UTCDate'' (toLowerCase a # cs)"
    using toLowerCase_not_upper_U [of a] by auto
  ultimately have "sublist ''UTCDate'' cs" by blast
  then show ?thesis using Cons by (simp add: sublist_Cons_right)
qed

lemma UTCDate_enumImport:
  "sublist ''UTCDate'' (enumImport c) \<Longrightarrow> sublist ''UTCDate'' c"
  by (auto simp: enumImport_def sublist_Cons_right sublist_avoid dest: UTCDate_lowercaseFirstLetter)

lemma UTCDate_typeImport:
  "sublist ''UTCDate'' (typeImport c) \<Longrightarrow> sublist ''UTCDate'' c"
  by (auto simp: typeImport_def sublist_Cons_right sublist_avoid dest: UTCDate_lowercaseFirstLetter)

lemma UTCDate_utcImport: "sublist ''UTCDate'' utcImport"
  by (simp add: utcImport_def sublist_Cons_right)

lemma sublist_enumImport: "sublist c (enumImport c)"
  unfolding enumImport_def by (rule sublist_appendI)

lemma sublist_typeImport: "sublist c (typeImport c)"
  unfolding typeImport_def by (rule sublist_appendI)

subsection \<open>What one field appends\<close>

lemma fieldImport_cases:
  "fieldImport type enums imps ty = []
     \<or> fieldImport type enums imps ty = utcImport \<and> str_includes (tsTypeOf ty) ''UTCDate''
     \<or> fieldImport type enums imps ty = enumImport (cleanedTypeOf ty)
          \<and> \<not> str_includes (tsTypeOf ty) ''UTCDate''
     \<or> fieldImport type enums imps ty = typeImport (cleanedTypeOf ty)
          \<and> \<not> str_includes (tsTypeOf ty) ''UTCDate''"
  by (simp add: fieldImport_def Let_def)

lemma fieldImport_deduplicated:
  assumes "sublist (cleanedTypeOf ty) imps"
  shows "fieldImport type enums imps ty = []"
proof (cases "str_includes (tsTypeOf ty) ''UTCDate''")
  case True
  then have "sublist ''UTCDate'' (cleanedTypeOf ty)"
    using UTCDate_cleaned by (simp add: str_includes_sublist)
  then have "sublist ''UTCDate'' imps"
    using assms by (rule sublist_order.order.trans)
  then show ?thesis using True by (simp add: fieldImport_def Let_def str_includes_sublist)
next
  case False
  then show ?thesis using assms by (simp add: fieldImport_def Let_def str_includes_sublist)
qed

lemma objectFields_fst:
  "fst (objectFields type enums imps fs) = imps @ concat (emittedImports type enums imps fs)"
  by (induction fs arbitrary: imps) (auto simp: case_prod_beta)

lemma objectFields_snd:
  "snd (objectFields type enums imps fs) = map (\<lambda>(fieldName, ty). fieldLine fieldName ty) fs"
  by (induction fs arbitrary: imps) (auto simp: case_prod_beta)

lemma emittedImports_append:
  "emittedImports type enums imps (xs @ ys) =
     emittedImports type enums imps xs
       @ emittedImports type enums (imps @ concat (emittedImports type enums imps xs)) ys"
  by (induction xs arbitrary: imps) auto

lemma length_emittedImports: "length (emittedImports type enums imps fs) = length fs"
  by (induction fs arbitrary: imps) auto

lemma emittedImports_at:
  "emittedImports type enums imps (pre @ (fieldName, ty) # post) ! length pre =
     fieldImport type enums (fst (objectFields type enums imps pre)) ty"
  by (simp add: emittedImports_append nth_append length_emittedImports objectFields_fst)

lemma emittedImports_nth:
  assumes "j < length fs"
  shows "emittedImports type enums imps fs ! j =
     fieldImport type enums (fst (objectFields type enums imps (take j fs))) (snd (fs ! j))"
proof -
  have "fs = take j fs @ (fst (fs ! j), snd (fs ! j)) # drop (Suc j) fs"
    using assms by (simp add: id_take_nth_drop)
  then have "emittedImports type enums imps fs ! j =
      emittedImports type enums imps
        (take j fs @ (fst (fs ! j), snd (fs ! j)) # drop (Suc j) fs) ! length (take j fs)"
    using assms by simp
  then show ?thesis by (simp only: emittedImports_at)
qed

lemma emittedImports_take:
  "take j (emittedImports type enums imps fs) = emittedImports type enums imps (take j fs)"
proof -
  have "emittedImports type enums imps (take j fs @ drop j fs) =
      emittedImports type enums imps (take j fs)
       @ emittedImports type enums
           (imps @ concat (emittedImports type enums imps (take j fs))) (drop j fs)"
    by (rule emittedImports_append)
  then show ?thesis by (cases "j \<le> length fs") (simp_all add: length_emittedImports)
qed

lemma sublist_concat: "x \<in> set xs \<Longrightarrow> sublist x (concat xs)"
  by (auto simp: in_set_conv_decomp)

lemma earlier_line_in_imports:
  assumes "i < j" and "j < length fs"
  shows "sublist (emittedImports type enums imps fs ! i)
           (fst (objectFields type enums imps (take j fs)))"
proof -
  have "emittedImports type enums imps fs ! i
      = take j (emittedImports type enums imps fs) ! i"
    using assms by simp
  also have "\<dots> \<in> set (take j (emittedImports type enums imps fs))"
    using assms by (intro nth_mem) (simp add: length_emittedImports)
  finally have "sublist (emittedImports type enums imps fs ! i)
      (concat (emittedImports type enums imps (take j fs)))"
    by (simp add: emittedImports_take sublist_concat)
  then show ?thesis
    unfolding objectFields_fst by (metis sublist_append_leftI sublist_order.order.trans)
qed

lemma deduplicated_after:
  assumes "i < j" and "j < length fs"
    and "sublist (cleanedTypeOf (snd (fs ! j))) (emittedImports type enums imps fs ! i)"
  shows "emittedImports type enums imps fs ! j = []"
proof -
  have "sublist (cleanedTypeOf (snd (fs ! j)))
      (fst (objectFields type enums imps (take j fs)))"
    using assms(3) earlier_line_in_imports [OF assms(1,2)] by (rule sublist_order.order.trans)
  then show ?thesis
    using assms(2) by (simp add: emittedImports_nth fieldImport_deduplicated)
qed

subsection \<open>The date import\<close>

lemma plain_import_no_UTCDate:
  assumes "validName (baseName ty)" and "\<not> str_includes (tsTypeOf ty) ''UTCDate''"
  shows "\<not> sublist ''UTCDate'' (fieldImport type enums imps ty)"
proof -
  have c: "\<not> sublist ''UTCDate'' (cleanedTypeOf ty)"
    using UTCDate_cleaned_iff [OF assms(1)] assms(2) by (simp add: str_includes_sublist)
  consider "fieldImport type enums imps ty = []"
    | "fieldImport type enums imps ty = enumImport (cleanedTypeOf ty)"
    | "fieldImport type enums imps ty = typeImport (cleanedTypeOf ty)"
    using fieldImport_cases [of type enums imps ty] assms(2) by blast
  then show ?thesis
  proof cases
    case 1
    then show ?thesis by simp
  next
    case 2
    then show ?thesis using c UTCDate_enumImport by auto
  next
    case 3
    then show ?thesis using c UTCDate_typeImport by auto
  qed
qed

lemma other_import_no_UTCDate:
  assumes "validName (baseName ty)" and "fieldImport type enums imps ty \<noteq> utcImport"
  shows "\<not> sublist ''UTCDate'' (fieldImport type enums imps ty)"
proof (cases "str_includes (tsTypeOf ty) ''UTCDate''")
  case True
  then have "fieldImport type enums imps ty = []"
    using assms(2) by (simp add: fieldImport_def Let_def split: if_splits)
  then show ?thesis by simp
next
  case False
  with assms(1) show ?thesis by (rule plain_import_no_UTCDate)
qed

lemma import_starts_with_i:
  "fieldImport type enums imps ty = [] \<or> (\<exists>r. fieldImport type enums imps ty = CHR ''i'' # r)"
  by (simp add: fieldImport_def Let_def utcImport_def enumImport_def typeImport_def)

lemma imports_UTCDate_step:
  assumes "validName (baseName ty)"
  shows "sublist ''UTCDate'' (imps @ fieldImport type enums imps ty)
     \<longleftrightarrow> sublist ''UTCDate'' imps \<or> fieldImport type enums imps ty = utcImport"
proof (cases "fieldImport type enums imps ty = utcImport")
  case True
  have "sublist utcImport (imps @ utcImport)" by (rule sublist_append_leftI)
  with UTCDate_utcImport have "sublist ''UTCDate'' (imps @ utcImport)"
    by (rule sublist_order.order.trans)
  then show ?thesis using True by simp
next
  case False
  note no = other_import_no_UTCDate [OF assms False]
  from import_starts_with_i [of type enums imps ty] show ?thesis
  proof
    assume "fieldImport type enums imps ty = []"
    then show ?thesis using False by simp
  next
    assume "\<exists>r. fieldImport type enums imps ty = CHR ''i'' # r"
    then obtain r where r: "fieldImport type enums imps ty = CHR ''i'' # r" by blast
    have "sublist ''UTCDate'' (imps @ CHR ''i'' # r)
        \<longleftrightarrow> sublist ''UTCDate'' imps \<or> sublist ''UTCDate'' r"
      by (rule sublist_avoid) simp
    moreover have "\<not> sublist ''UTCDate'' r" using no r by (simp add: sublist_Cons_right)
    ultimately show ?thesis using False r by simp
  qed
qed

lemma count_utcImport:
  assumes "\<forall>f\<in>set fs. validName (baseName (snd f))"
  shows "count_list (emittedImports type enums imps fs) utcImport =
     (if \<not> sublist ''UTCDate'' imps \<and> (\<exists>f\<in>set fs. str_includes (tsTypeOf (snd f)) ''UTCDate'')
      then 1 else 0)"
  using assms
proof (induction fs arbitrary: imps)
  case Nil
  then show ?case by simp
next
  case (Cons f fs)
  obtain fieldName ty where f: "f = (fieldName, ty)" by (cases f)
  have v: "validName (baseName ty)" using Cons.prems f by simp
  have vs: "\<forall>f\<in>set fs. validName (baseName (snd f))" using Cons.prems by simp
  let ?e = "fieldImport type enums imps ty"
  have IH: "count_list (emittedImports type enums (imps @ ?e) fs) utcImport =
     (if \<not> sublist ''UTCDate'' (imps @ ?e)
          \<and> (\<exists>f\<in>set fs. str_includes (tsTypeOf (snd f)) ''UTCDate'')
      then 1 else 0)"
    using Cons.IH [OF vs] .
  have step: "sublist ''UTCDate'' (imps @ ?e) \<longleftrightarrow> sublist ''UTCDate'' imps \<or> ?e = utcImport"
    using v by (rule imports_UTCDate_step)
  have ne: "utcImport \<noteq> []" by (simp add: utcImport_def)
  show ?case
  proof (cases "str_includes (tsTypeOf ty) ''UTCDate''")
    case True
    then have e: "?e = (if \<not> sublist ''UTCDate'' imps then utcImport else [])"
      by (simp add: fieldImport_def Let_def str_includes_sublist)
    show ?thesis
    proof (cases "sublist ''UTCDate'' imps")
      case True
      then show ?thesis using e IH ne f by simp
    next
      case False
      then show ?thesis using e IH step True f by simp
    qed
  next
    case False
    have "\<not> sublist ''UTCDate'' ?e"
      using v False by (rule plain_import_no_UTCDate)
    then have "?e \<noteq> utcImport" using UTCDate_utcImport by auto
    then show ?thesis using IH step False f by simp
  qed
qed

lemma same_base_once:
  assumes valid: "\<forall>f\<in>set fs. validName (baseName (snd f))"
    and ij: "i < j" "j < length fs"
    and same: "cleanedTypeOf (snd (fs ! i)) = cleanedTypeOf (snd (fs ! j))"
  shows "emittedImports type enums imps fs ! i = [] \<or> emittedImports type enums imps fs ! j = []"
proof -
  let ?ei = "emittedImports type enums imps fs ! i"
  let ?ti = "snd (fs ! i)" and ?tj = "snd (fs ! j)"
  have i: "i < length fs" using ij by simp
  have ei: "?ei = fieldImport type enums (fst (objectFields type enums imps (take i fs))) ?ti"
    using i by (rule emittedImports_nth)
  have ej: "emittedImports type enums imps fs ! j
      = fieldImport type enums (fst (objectFields type enums imps (take j fs))) ?tj"
    using ij(2) by (rule emittedImports_nth)
  have vj: "validName (baseName ?tj)" using valid ij(2) by simp
  consider "?ei = []"
    | "?ei = utcImport" "str_includes (tsTypeOf ?ti) ''UTCDate''"
    | "?ei = enumImport (cleanedTypeOf ?ti)"
    | "?ei = typeImport (cleanedTypeOf ?ti)"
    using fieldImport_cases [of type enums "fst (objectFields type enums imps (take i fs))" ?ti]
    unfolding ei by blast
  then show ?thesis
  proof cases
    case 1
    then show ?thesis by simp
  next
    case 2
    then have "str_includes (cleanedTypeOf ?tj) ''UTCDate''"
      using UTCDate_cleaned [of ?ti] same by simp
    then have tj: "str_includes (tsTypeOf ?tj) ''UTCDate''"
      using UTCDate_cleaned_iff [OF vj] by simp
    have "sublist ''UTCDate'' ?ei" using 2(1) UTCDate_utcImport by simp
    then have "sublist ''UTCDate'' (fst (objectFields type enums imps (take j fs)))"
      using earlier_line_in_imports [OF ij, of type enums imps]
      by (rule sublist_order.order.trans)
    then show ?thesis
      unfolding ej using tj by (simp add: fieldImport_def Let_def str_includes_sublist)
  next
    case 3
    then have "sublist (cleanedTypeOf ?tj) ?ei" using same sublist_enumImport by simp
    then show ?thesis using deduplicated_after [OF ij] by blast
  next
    case 4
    then have "sublist (cleanedTypeOf ?tj) ?ei" using same sublist_typeImport by simp
    then show ?thesis using deduplicated_after [OF ij] by blast
  qed
qed

subsection \<open>The two passes\<close>

lemma enumStep_keeps: "set (enumTypes st) \<subseteq> set (enumTypes (enumStep ignore outDir st entry))"
  by (auto simp: enumStep_def Let_def split: prod.splits)

lemma enumPass_keeps: "set (enumTypes st) \<subseteq> set (enumTypes (enumPass ignore outDir typeMap st))"
  unfolding enumPass_def
proof (induction typeMap arbitrary: st)
  case Nil
  then show ?case by simp
next
  case (Cons entry typeMap)
  show ?case using enumStep_keeps [of st ignore outDir entry] Cons [of "enumStep ignore outDir st entry"]
    by auto
qed

lemma enumStep_registers:
  "\<not> prefix ''__'' typeName \<Longrightarrow> typeName \<notin> set ignore
     \<Longrightarrow> e \<in> set (enumTypes (enumStep ignore outDir st (typeName, GraphQLEnumType e vals)))"
  by (simp add: enumStep_def Let_def)

lemma enumPass_registers:
  assumes "(typeName, GraphQLEnumType e vals) \<in> set typeMap"
    and "\<not> prefix ''__'' typeName" and "typeName \<notin> set ignore"
  shows "e \<in> set (enumTypes (enumPass ignore outDir typeMap st))"
  using assms(1)
proof (induction typeMap arbitrary: st)
  case Nil
  then show ?case by simp
next
  case (Cons entry typeMap)
  have unfold: "enumPass ignore outDir (entry # typeMap) st
      = enumPass ignore outDir typeMap (enumStep ignore outDir st entry)"
    by (simp add: enumPass_def)
  show ?case
  proof (cases "entry = (typeName, GraphQLEnumType e vals)")
    case True
    then have "e \<in> set (enumTypes (enumStep ignore outDir st entry))"
      using assms(2,3) by (simp add: enumStep_registers)
    then show ?thesis unfolding unfold using enumPass_keeps by blast
  next
    case False
    then have "(typeName, GraphQLEnumType e vals) \<in> set typeMap" using Cons.prems by simp
    then show ?thesis unfolding unfold by (rule Cons.IH)
  qed
qed

lemma restStep_enumTypes: "enumTypes (restStep ignore outDir st entry) = enumTypes st"
  by (simp add: restStep_def Let_def split: prod.splits)

lemma restStep_keeps: "set (written st) \<subseteq> set (written (restStep ignore outDir st entry))"
  by (auto simp: restStep_def Let_def split: prod.splits)

lemma restPass_enumTypes: "enumTypes (restPass ignore outDir typeMap st) = enumTypes st"
  unfolding restPass_def
  by (induction typeMap arbitrary: st) (simp_all add: restStep_enumTypes)

lemma restPass_keeps: "set (written st) \<subseteq> set (written (restPass ignore outDir typeMap st))"
  unfolding restPass_def
proof (induction typeMap arbitrary: st)
  case Nil
  then show ?case by simp
next
  case (Cons entry typeMap)
  show ?case using restStep_keeps [of st ignore outDir entry] Cons [of "restStep ignore outDir st entry"]
    by auto
qed

lemma restStep_writes_object:
  "\<not> prefix ''__'' typeName \<Longrightarrow> typeName \<notin> set ignore
     \<Longrightarrow> ([outDir, lowercaseFirstLetter n @ ''.ts''],
           generateTypeScriptForType (enumTypes st) (GraphQLObjectType n fs))
          \<in> set (written (restStep ignore outDir st (typeName, GraphQLObjectType n fs)))"
  by (simp add: restStep_def Let_def case_prod_beta)

lemma restPass_writes_object:
  assumes "(typeName, GraphQLObjectType n fs) \<in> set typeMap"
    and "\<not> prefix ''__'' typeName" and "typeName \<notin> set ignore"
  shows "([outDir, lowercaseFirstLetter n @ ''.ts''],
           generateTypeScriptForType (enumTypes st) (GraphQLObjectType n fs))
          \<in> set (written (restPass ignore outDir typeMap st))"
  using assms(1)
proof (induction typeMap arbitrary: st)
  case Nil
  then show ?case by simp
next
  case (Cons entry typeMap)
  have unfold: "restPass ignore outDir (entry # typeMap) st
      = restPass ignore outDir typeMap (restStep ignore outDir st entry)"
    by (simp add: restPass_def)
  show ?case
  proof (cases "entry = (typeName, GraphQLObjectType n fs)")
    case True
    have "([outDir, lowercaseFirstLetter n @ ''.ts''],
           generateTypeScriptForType (enumTypes st) (GraphQLObjectType n fs))
          \<in> set (written (restStep ignore outDir st entry))"
      unfolding True using assms(2,3) by (rule restStep_writes_object)
    then show ?thesis unfolding unfold using restPass_keeps by blast
  next
    case False
    then have "(typeName, GraphQLObjectType n fs) \<in> set typeMap" using Cons.prems by simp
    then have "([outDir, lowercaseFirstLetter n @ ''.ts''],
           generateTypeScriptForType (enumTypes (restStep ignore outDir st entry))
             (GraphQLObjectType n fs))
          \<in> set (written (restPass ignore outDir typeMap (restStep ignore outDir st entry)))"
      by (rule Cons.IH)
    then show ?thesis unfolding unfold by (simp add: restStep_enumTypes)
  qed
qed

lemma object_text_contains_imports:
  "k < length fs
     \<Longrightarrow> sublist (emittedImports (GraphQLObjectType n fs) enums [] fs ! k)
           (generateTypeScriptForType enums (GraphQLObjectType n fs))"
proof -
  assume k: "k < length fs"
  let ?T = "GraphQLObjectType n fs"
  have "emittedImports ?T enums [] fs ! k \<in> set (emittedImports ?T enums [] fs)"
    using k by (simp add: length_emittedImports)
  then have "sublist (emittedImports ?T enums [] fs ! k) (fst (objectFields ?T enums [] fs))"
    by (simp add: objectFields_fst sublist_concat)
  moreover have "sublist (fst (objectFields ?T enums [] fs)) (generateTypeScriptForType enums ?T)"
    by (simp add: case_prod_beta)
  ultimately show ?thesis by (rule sublist_order.order.trans)
qed

subsection \<open>Rendering of simple type references\<close>

lemma greedyGroup_none: "CHR '']'' \<notin> set s \<Longrightarrow> greedyGroup s = None"
  by (induction s) auto

lemma greedyGroup_last:
  "CHR '']'' \<notin> set post \<Longrightarrow> \<forall>c\<in>set mid. \<not> lineTerminator c
     \<Longrightarrow> greedyGroup (mid @ CHR '']'' # post) = Some mid"
  by (induction mid) (auto simp: greedyGroup_none lineTerminator_def)

lemma replaceBrackets_pair:
  assumes "CHR '']'' \<notin> set post" and "CHR ''['' \<notin> set post"
    and "\<forall>c\<in>set mid. \<not> lineTerminator c"
  shows "replaceBrackets sfx (CHR ''['' # mid @ CHR '']'' # post) = mid @ sfx @ post"
  using greedyGroup_last [OF assms(1,3)] assms(2) by (simp add: replaceBrackets_id)

lemma nameChar_no_terminator: "nameChar c \<Longrightarrow> \<not> lineTerminator c"
  by (auto simp: nameChar_def nameStart_def lineTerminator_def)

lemma validName_rendered:
  assumes "validName n"
  shows "\<forall>c\<in>set (mapGraphQLTypeToTSType n). \<not> lineTerminator c"
    and "CHR ''['' \<notin> set (mapGraphQLTypeToTSType n)"
    and "CHR '']'' \<notin> set (mapGraphQLTypeToTSType n)"
    and "CHR ''!'' \<notin> set (mapGraphQLTypeToTSType n)"
proof -
  have "list_all nameChar n"
    using assms by (auto simp: validName_def nameChar_def split: list.splits)
  then have "list_all nameChar (mapGraphQLTypeToTSType n)"
    by (rule nameChar_mapGraphQLTypeToTSType)
  then show "\<forall>c\<in>set (mapGraphQLTypeToTSType n). \<not> lineTerminator c"
    by (auto simp: list_all_iff nameChar_no_terminator)
  show "CHR ''['' \<notin> set (mapGraphQLTypeToTSType n)"
    and "CHR '']'' \<notin> set (mapGraphQLTypeToTSType n)"
    and "CHR ''!'' \<notin> set (mapGraphQLTypeToTSType n)"
    using validName_plain [OF assms] by (simp_all add: plain_def)
qed

lemma str_includes_bang: "str_includes s ''!'' \<longleftrightarrow> CHR ''!'' \<in> set s"
  by (induction s) (auto simp: prefix_Cons)

lemma bang_replaceBrackets:
  "CHR ''!'' \<in> set s \<Longrightarrow> CHR ''!'' \<in> set (replaceBrackets sfx s)"
  using sublist_replaceBrackets [of "''!''" s sfx]
  by (simp add: str_includes_bang [symmetric] str_includes_sublist)

lemma replaceAll_absent: "\<not> sublist pat s \<Longrightarrow> replaceAll pat rep s = s"
  by (induction s) (auto simp: sublist_Cons_right)

subsection \<open>Type references with at most one list wrapper\<close>

lemma tsTypeOf_depth0:
  "listDepth t = 0 \<Longrightarrow> \<exists>k. tsTypeOf t = mapGraphQLTypeToTSType (baseName t) @ replicate k CHR ''!''"
proof (induction t)
  case (Named n)
  have "tsTypeOf (Named n) = mapGraphQLTypeToTSType (baseName (Named n)) @ replicate 0 CHR ''!''"
    by (simp add: tsTypeOf_Named)
  then show ?case by blast
next
  case (ListT t)
  then show ?case by simp
next
  case (NonNullT t)
  then obtain k where "tsTypeOf t = mapGraphQLTypeToTSType (baseName t) @ replicate k CHR ''!''"
    by auto
  then have "tsTypeOf (NonNullT t)
      = mapGraphQLTypeToTSType (baseName (NonNullT t)) @ replicate (Suc k) CHR ''!''"
    by (simp add: tsTypeOf_NonNullT replicate_append_same)
  then show ?case by blast
qed

lemma tsTypeOf_depth1:
  "listDepth t = 1 \<Longrightarrow> \<exists>j k. tsTypeOf t =
     CHR ''['' # (mapGraphQLTypeToTSType (baseName t) @ replicate j CHR ''!'')
       @ CHR '']'' # replicate k CHR ''!''"
proof (induction t)
  case (Named n)
  then show ?case by simp
next
  case (ListT t)
  then have "listDepth t = 0" by simp
  then obtain j where "tsTypeOf t = mapGraphQLTypeToTSType (baseName t) @ replicate j CHR ''!''"
    using tsTypeOf_depth0 by blast
  then have "tsTypeOf (ListT t) =
     CHR ''['' # (mapGraphQLTypeToTSType (baseName (ListT t)) @ replicate j CHR ''!'')
       @ CHR '']'' # replicate 0 CHR ''!''"
    by (simp add: tsTypeOf_ListT)
  then show ?case by blast
next
  case (NonNullT t)
  then obtain j k where "tsTypeOf t =
     CHR ''['' # (mapGraphQLTypeToTSType (baseName t) @ replicate j CHR ''!'')
       @ CHR '']'' # replicate k CHR ''!''"
    by auto
  then have "tsTypeOf (NonNullT t) =
     CHR ''['' # (mapGraphQLTypeToTSType (baseName (NonNullT t)) @ replicate j CHR ''!'')
       @ CHR '']'' # replicate (Suc k) CHR ''!''"
    by (simp add: tsTypeOf_NonNullT replicate_append_same)
  then show ?case by blast
qed

lemma filter_bangs: "filter (\<lambda>x. x \<noteq> CHR ''!'') (replicate k CHR ''!'') = []"
  by (induction k) simp_all

lemma filter_plain: "plain m \<Longrightarrow> filter (\<lambda>x. x \<noteq> CHR ''!'') m = m"
  by (induction m) (auto simp: plain_def)

lemma bangs_no_brackets:
  "CHR '']'' \<notin> set (replicate k CHR ''!'')" "CHR ''['' \<notin> set (replicate k CHR ''!'')"
  by (induction k) simp_all

lemma bangs_no_terminator: "\<forall>c\<in>set (replicate k CHR ''!''). \<not> lineTerminator c"
  by (induction k) (simp_all add: lineTerminator_def)

lemma cleaned_depth0:
  assumes "plain m"
  shows "replaceAll ''!'' [] (replaceBrackets [] (m @ replicate k CHR ''!'')) = m"
proof -
  have "CHR ''['' \<notin> set (m @ replicate k CHR ''!'')"
    using assms bangs_no_brackets(2) [of k] by (simp add: plain_def)
  then have "replaceBrackets [] (m @ replicate k CHR ''!'') = m @ replicate k CHR ''!''"
    by (rule replaceBrackets_id)
  then show ?thesis
    by (simp only: replaceAll_single filter_append filter_bangs filter_plain [OF assms] append_Nil2)
qed

lemma cleaned_depth1:
  assumes "plain m" and "\<forall>c\<in>set m. \<not> lineTerminator c"
  shows "replaceAll ''!'' []
           (replaceBrackets []
              (CHR ''['' # (m @ replicate j CHR ''!'') @ CHR '']'' # replicate k CHR ''!'')) = m"
proof -
  have mid: "\<forall>c\<in>set (m @ replicate j CHR ''!''). \<not> lineTerminator c"
    using assms(2) bangs_no_terminator [of j] by (simp only: set_append ball_Un)
  have "replaceBrackets []
      (CHR ''['' # (m @ replicate j CHR ''!'') @ CHR '']'' # replicate k CHR ''!'')
      = (m @ replicate j CHR ''!'') @ [] @ replicate k CHR ''!''"
    using bangs_no_brackets(1) [of k] bangs_no_brackets(2) [of k] mid
    by (rule replaceBrackets_pair)
  then show ?thesis
    by (simp only: replaceAll_single filter_append filter_bangs filter_plain [OF assms(1)]
        append_Nil2 append_Nil filter.simps)
qed

lemma cleanedTypeOf_shallow:
  assumes d: "listDepth t \<le> 1"
    and p: "plain (mapGraphQLTypeToTSType (baseName t))"
    and l: "\<forall>c\<in>set (mapGraphQLTypeToTSType (baseName t)). \<not> lineTerminator c"
  shows "cleanedTypeOf t = mapGraphQLTypeToTSType (baseName t)"
proof -
  from d consider "listDepth t = 0" | "listDepth t = 1" by linarith
  then show ?thesis
  proof cases
    case 1
    then obtain k where ts: "tsTypeOf t = mapGraphQLTypeToTSType (baseName t) @ replicate k CHR ''!''"
      using tsTypeOf_depth0 by blast
    show ?thesis unfolding cleanedTypeOf_def ts using p by (rule cleaned_depth0)
  next
    case 2
    then obtain j k where ts: "tsTypeOf t =
        CHR ''['' # (mapGraphQLTypeToTSType (baseName t) @ replicate j CHR ''!'')
          @ CHR '']'' # replicate k CHR ''!''"
      using tsTypeOf_depth1 by blast
    show ?thesis unfolding cleanedTypeOf_def ts using p l by (rule cleaned_depth1)
  qed
qed

lemma primitive_cleaned_no_import:
  assumes "cleanedTypeOf ty \<in> set ignoreFields"
  shows "fieldImport type enums imps ty = []"
proof -
  have "\<not> sublist ''UTCDate'' (cleanedTypeOf ty)"
    using assms by (auto simp: ignoreFields_def sublist_Cons_right)
  then have "\<not> str_includes (tsTypeOf ty) ''UTCDate''"
    using UTCDate_cleaned by (auto simp: str_includes_sublist)
  then show ?thesis using assms by (simp add: fieldImport_def Let_def)
qed

lemma primitive_names_plain:
  assumes "m \<in> set ignoreFields"
  shows "plain m" and "\<forall>c\<in>set m. \<not> lineTerminator c"
proof -
  from assms consider "m = ''string''" | "m = ''number''" | "m = ''boolean''"
    by (auto simp: ignoreFields_def)
  then show "plain m" by cases (simp_all add: plain_def)
  from assms consider "m = ''string''" | "m = ''number''" | "m = ''boolean''"
    by (auto simp: ignoreFields_def)
  then show "\<forall>c\<in>set m. \<not> lineTerminator c" by cases (simp_all add: lineTerminator_def)
qed

section \<open>The claims\<close>

text \<open>The definitions that a concrete run unfolds.\<close>

lemmas eval_defs = tsTypeOf_def cleanedTypeOf_def mapGraphQLTypeToTSType_def lineTerminator_def
  fieldImport_def fieldLine_def utcImport_def enumImport_def typeImport_def toLowerCase_def
  ignoreFields_def scalarTypeMap_def

lemmas run_defs = main_def enumPass_def restPass_def enumStep_def restStep_def

subsection \<open>C1: enum-first ordering\<close>

text \<open>
  Claim C1 says that a field whose base name is an enum type of the schema gets a value
  import from the enums sub-path.  In the schema below the first pass registers \<open>Color\<close>;
  the field \<open>color\<close> of \<open>Item\<close> has the base name \<open>Color\<close> and comes after a field of type
  \<open>ColorType\<close>.  The test that guards the import looks for the base name inside the import
  text accumulated so far, finds it inside the line for \<open>ColorType\<close>, and the field appends
  nothing: the file written for \<open>Item\<close> uses \<open>Color\<close> and has no import of it.
\<close>

theorem registered_enum_import_lost:
  "enumTypes (main [] ''out''
      [(''Color'', GraphQLEnumType ''Color'' [(''RED'', ''RED''), (''GREEN'', ''GREEN'')]),
       (''ColorType'', GraphQLObjectType ''ColorType'' [(''name'', Named ''String'')]),
       (''Item'', GraphQLObjectType ''Item''
          [(''kind'', Named ''ColorType''), (''color'', Named ''Color'')])]) = [''Color'']
   \<and> cleanedTypeOf (Named ''Color'') = ''Color''
   \<and> emittedImports
        (GraphQLObjectType ''Item'' [(''kind'', Named ''ColorType''), (''color'', Named ''Color'')])
        [''Color''] [] [(''kind'', Named ''ColorType''), (''color'', Named ''Color'')]
       = [''import type {ColorType} from '' @ [dq] @ ''./colorType'' @ [dq] @ '';'' @ [nl], []]
   \<and> written (main [] ''out''
      [(''Color'', GraphQLEnumType ''Color'' [(''RED'', ''RED''), (''GREEN'', ''GREEN'')]),
       (''ColorType'', GraphQLObjectType ''ColorType'' [(''name'', Named ''String'')]),
       (''Item'', GraphQLObjectType ''Item''
          [(''kind'', Named ''ColorType''), (''color'', Named ''Color'')])]) ! 2
       = ([''out'', ''item.ts''],
          ''import type {ColorType} from '' @ [dq] @ ''./colorType'' @ [dq] @ '';'' @ [nl] @ [nl]
           @ ''export interface Item {'' @ [nl] @ ''  kind?: ColorType;'' @ [nl]
           @ ''  color?: Color;'' @ [nl] @ ''}'')"
  by (simp add: eval_defs run_defs)

text \<open>
  A registered enum whose name contains a scalar name is lost in another way: the reference
  is rewritten before the registry is consulted, and the field gets a type-only import of
  the rewritten name.
\<close>

lemma registered_enum_mangled_reference:
  "enumTypes (main [] ''out''
      [(''IntervalUnit'', GraphQLEnumType ''IntervalUnit'' [(''DAY'', ''DAY'')]),
       (''Plan'', GraphQLObjectType ''Plan'' [(''every'', NonNullT (Named ''IntervalUnit''))])])
     = [''IntervalUnit'']
   \<and> written (main [] ''out''
      [(''IntervalUnit'', GraphQLEnumType ''IntervalUnit'' [(''DAY'', ''DAY'')]),
       (''Plan'', GraphQLObjectType ''Plan'' [(''every'', NonNullT (Named ''IntervalUnit''))])]) ! 1
     = ([''out'', ''plan.ts''],
        ''import type {numberervalUnit} from '' @ [dq] @ ''./numberervalUnit'' @ [dq] @ '';'' @ [nl]
          @ [nl] @ ''export interface Plan {'' @ [nl] @ ''  every: numberervalUnit;'' @ [nl] @ ''}'')"
  by (simp add: eval_defs run_defs)

text \<open>
  What does hold of C1: the first pass has put every enum name into the registry before the
  second pass renders an object type, and a field whose \<open>cleanedType\<close> is a registered enum
  appends the value import whenever it reaches the registry test.
\<close>

lemma registered_enum_value_import:
  assumes enum: "(enumKey, GraphQLEnumType e vals) \<in> set typeMap"
      "\<not> prefix ''__'' enumKey" "enumKey \<notin> set ignore"
    and obj: "(objKey, GraphQLObjectType n fs) \<in> set typeMap"
      "\<not> prefix ''__'' objKey" "objKey \<notin> set ignore"
    and field: "fs = pre @ (fieldName, ty) # post"
    and base: "cleanedTypeOf ty = e"
    and nodate: "\<not> str_includes (tsTypeOf ty) ''UTCDate''"
    and noprim: "e \<notin> set ignoreFields"
    and fresh: "\<not> str_includes
        (fst (objectFields (GraphQLObjectType n fs)
           (enumTypes (enumPass ignore outDir typeMap \<lparr>enumTypes = [], written = []\<rparr>)) [] pre)) e"
  shows "emittedImports (GraphQLObjectType n fs)
           (enumTypes (enumPass ignore outDir typeMap \<lparr>enumTypes = [], written = []\<rparr>)) [] fs
           ! length pre = enumImport e
    \<and> ([outDir, lowercaseFirstLetter n @ ''.ts''],
         generateTypeScriptForType
           (enumTypes (enumPass ignore outDir typeMap \<lparr>enumTypes = [], written = []\<rparr>))
           (GraphQLObjectType n fs))
        \<in> set (written (main ignore outDir typeMap))
    \<and> sublist (enumImport e)
         (generateTypeScriptForType
           (enumTypes (enumPass ignore outDir typeMap \<lparr>enumTypes = [], written = []\<rparr>))
           (GraphQLObjectType n fs))"
proof -
  let ?reg = "enumTypes (enumPass ignore outDir typeMap \<lparr>enumTypes = [], written = []\<rparr>)"
  let ?T = "GraphQLObjectType n fs"
  have reg: "e \<in> set ?reg" using enum by (rule enumPass_registers)
  have "emittedImports ?T ?reg [] fs ! length pre
      = fieldImport ?T ?reg (fst (objectFields ?T ?reg [] pre)) ty"
    unfolding field by (rule emittedImports_at)
  also have "\<dots> = enumImport e"
    using base nodate noprim fresh reg by (simp add: fieldImport_def Let_def)
  finally have one: "emittedImports ?T ?reg [] fs ! length pre = enumImport e" .
  have two: "([outDir, lowercaseFirstLetter n @ ''.ts''], generateTypeScriptForType ?reg ?T)
      \<in> set (written (main ignore outDir typeMap))"
    unfolding main_def using restPass_writes_object [OF obj] by simp
  have "length pre < length fs" using field by simp
  then have "sublist (emittedImports ?T ?reg [] fs ! length pre) (generateTypeScriptForType ?reg ?T)"
    by (rule object_text_contains_imports)
  then have three: "sublist (enumImport e) (generateTypeScriptForType ?reg ?T)"
    using one by simp
  from one two three show ?thesis by blast
qed

subsection \<open>C2: required and optional fields\<close>

text \<open>
  Claim C2 says that a nullable list of non-null elements, which has no trailing non-null
  marker, renders optional.  The callback tests whether the marker occurs anywhere in the
  rendered type, so the field \<open>tags: [String!]\<close> is rendered as required.
\<close>

theorem nullable_list_rendered_required:
  "fieldLine ''tags'' (ListT (NonNullT (Named ''String''))) = ''  tags: string[];''"
  by (simp add: eval_defs)

text \<open>
  What does hold of C2: a field whose type is non-null at the outermost level is rendered as
  required, and a field whose type is a bare valid name is rendered as optional.
\<close>

lemma non_null_field_required:
  "fieldLine f (NonNullT t)
     = ''  '' @ f @ '': '' @ replaceAll ''!'' [] (replaceBrackets ''[]'' (tsTypeOf (NonNullT t))) @ '';''"
  by (simp add: fieldLine_def Let_def str_includes_bang bang_replaceBrackets tsTypeOf_NonNullT)

lemma named_field_optional:
  assumes "validName n"
  shows "fieldLine f (Named n) = ''  '' @ f @ ''?: '' @ mapGraphQLTypeToTSType n @ '';''"
  using validName_rendered(2,4) [OF assms]
  by (simp add: fieldLine_def Let_def str_includes_bang tsTypeOf_Named replaceBrackets_id)

subsection \<open>C3: lists\<close>

text \<open>
  Claim C3 says that a list of lists renders as the inner type followed by one array suffix,
  with no bracket left.  The bracket expression matches from the first opening bracket to the
  last closing bracket, so only the outer pair is removed: \<open>[[Int]]\<close> renders as
  \<open>[number][]\<close>, and the base name used for the import is \<open>[number]\<close>.
\<close>

theorem nested_list_keeps_brackets:
  "fieldLine ''grid'' (ListT (ListT (Named ''Int''))) = ''  grid?: [number][];''
   \<and> cleanedTypeOf (ListT (ListT (Named ''Int''))) = ''[number]''"
  by (simp add: eval_defs)

text \<open>
  What does hold of C3: a list of a named type renders as the mapped name followed by one
  array suffix, whatever the nullability of the list and of its elements.
\<close>

lemma single_list_rendering:
  assumes "validName n"
  shows "fieldLine f (ListT (Named n)) = ''  '' @ f @ ''?: '' @ mapGraphQLTypeToTSType n @ ''[];''"
    and "fieldLine f (ListT (NonNullT (Named n))) = ''  '' @ f @ '': '' @ mapGraphQLTypeToTSType n @ ''[];''"
    and "fieldLine f (NonNullT (ListT (Named n))) = ''  '' @ f @ '': '' @ mapGraphQLTypeToTSType n @ ''[];''"
    and "fieldLine f (NonNullT (ListT (NonNullT (Named n))))
           = ''  '' @ f @ '': '' @ mapGraphQLTypeToTSType n @ ''[];''"
proof -
  let ?m = "mapGraphQLTypeToTSType n"
  note v = validName_rendered [OF assms]
  have nb: "filter (\<lambda>x. x \<noteq> CHR ''!'') ?m = ?m" using v(4) by (auto simp: filter_id_conv)
  have a: "replaceBrackets ''[]'' (CHR ''['' # ?m @ CHR '']'' # []) = ?m @ ''[]'' @ []"
    by (rule replaceBrackets_pair) (use v in simp_all)
  have b: "replaceBrackets ''[]'' (CHR ''['' # (?m @ ''!'') @ CHR '']'' # []) = (?m @ ''!'') @ ''[]'' @ []"
    by (rule replaceBrackets_pair) (use v in \<open>simp_all add: lineTerminator_def\<close>)
  have c: "replaceBrackets ''[]'' (CHR ''['' # ?m @ CHR '']'' # ''!'') = ?m @ ''[]'' @ ''!''"
    by (rule replaceBrackets_pair) (use v in simp_all)
  have d: "replaceBrackets ''[]'' (CHR ''['' # (?m @ ''!'') @ CHR '']'' # ''!'') = (?m @ ''!'') @ ''[]'' @ ''!''"
    by (rule replaceBrackets_pair) (use v in \<open>simp_all add: lineTerminator_def\<close>)
  show "fieldLine f (ListT (Named n)) = ''  '' @ f @ ''?: '' @ ?m @ ''[];''"
    using a v(4) by (simp add: fieldLine_def tsTypeOf_ListT tsTypeOf_Named str_includes_bang)
  show "fieldLine f (ListT (NonNullT (Named n))) = ''  '' @ f @ '': '' @ ?m @ ''[];''"
    using b nb by (simp add: fieldLine_def tsTypeOf_ListT tsTypeOf_NonNullT tsTypeOf_Named
        str_includes_bang replaceAll_single)
  show "fieldLine f (NonNullT (ListT (Named n))) = ''  '' @ f @ '': '' @ ?m @ ''[];''"
    using c nb by (simp add: fieldLine_def tsTypeOf_ListT tsTypeOf_NonNullT tsTypeOf_Named
        str_includes_bang replaceAll_single)
  show "fieldLine f (NonNullT (ListT (NonNullT (Named n)))) = ''  '' @ f @ '': '' @ ?m @ ''[];''"
    using d nb by (simp add: fieldLine_def tsTypeOf_ListT tsTypeOf_NonNullT tsTypeOf_Named
        str_includes_bang replaceAll_single)
qed

subsection \<open>C4: scalar substitution\<close>

text \<open>
  Claim C4 says that scalar names are replaced as whole tokens only, so that \<open>Interval\<close> and
  \<open>VideoID\<close> pass through unchanged.  The replacement is made on every occurrence of a
  scalar name inside the printed type.
\<close>

theorem scalar_substring_corrupted:
  "tsTypeOf (Named ''Interval'') = ''numbererval''
   \<and> tsTypeOf (Named ''VideoID'') = ''Videostring''"
  by (simp add: eval_defs)

text \<open>
  What does hold of C4: a bare reference to a name of the scalar table renders as the scalar
  mapper's result, and a name in which no scalar name occurs renders unchanged.
\<close>

lemma scalar_names_rendered:
  "n \<in> set scalarTypeMap \<Longrightarrow> tsTypeOf (Named n) = mapGraphQLScalarToTSType n"
  by (auto simp: scalarTypeMap_def tsTypeOf_def mapGraphQLTypeToTSType_def
      mapGraphQLScalarToTSType_def)

lemma name_without_scalar_unchanged:
  assumes "\<forall>s\<in>set scalarTypeMap. \<not> str_includes n s"
  shows "tsTypeOf (Named n) = n"
  using assms
  by (simp add: scalarTypeMap_def tsTypeOf_def mapGraphQLTypeToTSType_def replaceAll_absent
      str_includes_sublist)

subsection \<open>C5: the scalar mapper\<close>

text \<open>
  Claim C5.  The scalar mapper sends \<open>String\<close> to \<open>string\<close>, \<open>Int\<close> and \<open>Float\<close> to
  \<open>number\<close>, \<open>Boolean\<close> to \<open>boolean\<close>, \<open>ID\<close> to \<open>string\<close>, the three temporal names to
  \<open>UTCDate\<close>, and every name outside this table to \<open>any\<close>; it is a total function, no
  name raises an error.
\<close>

theorem scalar_mapper_table:
  "mapGraphQLScalarToTSType ''String'' = ''string''
   \<and> mapGraphQLScalarToTSType ''Int'' = ''number''
   \<and> mapGraphQLScalarToTSType ''Float'' = ''number''
   \<and> mapGraphQLScalarToTSType ''Boolean'' = ''boolean''
   \<and> mapGraphQLScalarToTSType ''ID'' = ''string''
   \<and> mapGraphQLScalarToTSType ''NaiveDate'' = ''UTCDate''
   \<and> mapGraphQLScalarToTSType ''NaiveTime'' = ''UTCDate''
   \<and> mapGraphQLScalarToTSType ''NaiveDateTime'' = ''UTCDate''
   \<and> (scalarName \<notin> set scalarTypeMap \<longrightarrow> mapGraphQLScalarToTSType scalarName = ''any'')"
  by (simp add: mapGraphQLScalarToTSType_def scalarTypeMap_def)

text \<open>
  Claim C5 at the name \<open>Color\<close>, which is outside the table.
\<close>

theorem scalar_mapper_table_witness:
  "''Color'' \<notin> set scalarTypeMap \<and> mapGraphQLScalarToTSType ''Color'' = ''any''"
proof -
  have h: "''Color'' \<notin> set scalarTypeMap" by (simp add: scalarTypeMap_def)
  have "''Color'' \<notin> set scalarTypeMap \<longrightarrow> mapGraphQLScalarToTSType ''Color'' = ''any''"
    using scalar_mapper_table [of "''Color''"] by blast
  with h show ?thesis by blast
qed

subsection \<open>C6: import determinism\<close>

text \<open>
  Claim C6 says that each distinct referenced base name produces at most one import line in
  a declaration.  The fields \<open>owner: User\<close> and \<open>grid: [[User]]\<close> refer to the same base name
  \<open>User\<close>; the bracket expression leaves \<open>[User]\<close> as the name of the second one, the
  deduplication test does not find it in the import text, and the declaration generated
  for \<open>Team\<close> has two import lines for \<open>User\<close>.
\<close>

theorem same_base_name_imported_twice:
  "baseName (Named ''User'') = baseName (ListT (ListT (Named ''User'')))
   \<and> emittedImports
        (GraphQLObjectType ''Team'' [(''owner'', Named ''User''), (''grid'', ListT (ListT (Named ''User'')))])
        [] [] [(''owner'', Named ''User''), (''grid'', ListT (ListT (Named ''User'')))]
       = [''import type {User} from '' @ [dq] @ ''./user'' @ [dq] @ '';'' @ [nl],
          ''import type {[User]} from '' @ [dq] @ ''./[User]'' @ [dq] @ '';'' @ [nl]]
   \<and> generateTypeScriptForType []
        (GraphQLObjectType ''Team'' [(''owner'', Named ''User''), (''grid'', ListT (ListT (Named ''User'')))])
       = ''import type {User} from '' @ [dq] @ ''./user'' @ [dq] @ '';'' @ [nl]
          @ ''import type {[User]} from '' @ [dq] @ ''./[User]'' @ [dq] @ '';'' @ [nl] @ [nl]
          @ ''export interface Team {'' @ [nl] @ ''  owner?: User;'' @ [nl]
          @ ''  grid?: [User][];'' @ [nl] @ ''}''"
  by (simp add: eval_defs)

text \<open>
  What does hold of C6, for field types over valid GraphQL names: two fields with the same
  \<open>cleanedType\<close> never both append a line; when the rendered type of some field contains
  the date type, exactly one field appends the import of the date type and no other
  appended line mentions it.
\<close>

lemma import_lines_by_cleaned_type:
  assumes "\<forall>f\<in>set fs. validName (baseName (snd f))"
  shows "(\<forall>i j. i < j \<and> j < length fs
            \<and> cleanedTypeOf (snd (fs ! i)) = cleanedTypeOf (snd (fs ! j))
          \<longrightarrow> emittedImports type enums [] fs ! i = []
              \<or> emittedImports type enums [] fs ! j = [])
    \<and> ((\<exists>f\<in>set fs. str_includes (tsTypeOf (snd f)) ''UTCDate'')
          \<longrightarrow> count_list (emittedImports type enums [] fs) utcImport = 1
              \<and> (\<forall>e\<in>set (emittedImports type enums [] fs).
                    e \<noteq> utcImport \<longrightarrow> \<not> str_includes e ''UTCDate''))
    \<and> fst (objectFields type enums [] fs) = concat (emittedImports type enums [] fs)"
proof (intro conjI allI impI ballI)
  fix i j
  assume "i < j \<and> j < length fs \<and> cleanedTypeOf (snd (fs ! i)) = cleanedTypeOf (snd (fs ! j))"
  then show "emittedImports type enums [] fs ! i = [] \<or> emittedImports type enums [] fs ! j = []"
    using same_base_once [OF assms] by blast
next
  assume "\<exists>f\<in>set fs. str_includes (tsTypeOf (snd f)) ''UTCDate''"
  then show "count_list (emittedImports type enums [] fs) utcImport = 1"
    using count_utcImport [OF assms, of type enums "[]"] by simp
next
  fix e
  assume "e \<in> set (emittedImports type enums [] fs)" and ne: "e \<noteq> utcImport"
  then obtain k where k: "k < length fs" and e: "e = emittedImports type enums [] fs ! k"
    by (auto simp: in_set_conv_nth length_emittedImports)
  have "validName (baseName (snd (fs ! k)))" using assms k by simp
  then show "\<not> str_includes e ''UTCDate''"
    using other_import_no_UTCDate ne e k
    by (simp add: emittedImports_nth str_includes_sublist)
next
  show "fst (objectFields type enums [] fs) = concat (emittedImports type enums [] fs)"
    by (simp add: objectFields_fst)
qed

subsection \<open>C7: fields that need no import\<close>

text \<open>
  Claim C7 as stated does not hold for a self-reference: the generator has no test for the
  type being declared, and a field \<open>next: Node\<close> of the object type \<open>Node\<close> appends an
  import of \<open>Node\<close>.
\<close>

theorem self_reference_import_counterexample:
  "cleanedTypeOf (Named ''Node'') = name (GraphQLObjectType ''Node'' [(''next'', Named ''Node'')])
   \<and> fieldImport (GraphQLObjectType ''Node'' [(''next'', Named ''Node'')]) [] [] (Named ''Node'')
       = ''import type {Node} from '' @ [dq] @ ''./node'' @ [dq] @ '';'' @ [nl]
   \<and> generateTypeScriptForType [] (GraphQLObjectType ''Node'' [(''next'', Named ''Node'')])
       = ''import type {Node} from '' @ [dq] @ ''./node'' @ [dq] @ '';'' @ [nl] @ [nl]
          @ ''export interface Node {'' @ [nl] @ ''  next?: Node;'' @ [nl] @ ''}''"
  by (simp add: eval_defs)

text \<open>
  Claim C7, as amended.  A field of an object type whose base name, the unwrapped type name
  after scalar substitution, is one of the built-in primitive names \<open>string\<close>, \<open>number\<close>,
  \<open>boolean\<close>, and whose type has at most one list wrapper, appends no import line.
\<close>

theorem primitive_base_name_no_import:
  assumes "mapGraphQLTypeToTSType (baseName ty) \<in> set ignoreFields"
    and "listDepth ty \<le> 1"
  shows "fieldImport type enums imps ty = []"
proof -
  have "cleanedTypeOf ty = mapGraphQLTypeToTSType (baseName ty)"
    using assms(2) primitive_names_plain [OF assms(1)] by (rule cleanedTypeOf_shallow)
  then have "cleanedTypeOf ty \<in> set ignoreFields" using assms(1) by simp
  then show ?thesis by (rule primitive_cleaned_no_import)
qed

text \<open>
  The amended claim C7 at a field of type \<open>[Int!]!\<close>.
\<close>

theorem primitive_base_name_no_import_witness:
  "mapGraphQLTypeToTSType (baseName (NonNullT (ListT (NonNullT (Named ''Int''))))) = ''number''
   \<and> listDepth (NonNullT (ListT (NonNullT (Named ''Int'')))) = 1
   \<and> fieldImport (GraphQLObjectType ''Item'' [(''sizes'', NonNullT (ListT (NonNullT (Named ''Int''))))])
        [] [] (NonNullT (ListT (NonNullT (Named ''Int'')))) = []"
proof -
  have m: "mapGraphQLTypeToTSType (baseName (NonNullT (ListT (NonNullT (Named ''Int''))))) = ''number''"
    by (simp add: mapGraphQLTypeToTSType_def)
  have d: "listDepth (NonNullT (ListT (NonNullT (Named ''Int'')))) = 1" by simp
  have h1: "mapGraphQLTypeToTSType (baseName (NonNullT (ListT (NonNullT (Named ''Int'')))))
      \<in> set ignoreFields"
    using m by (simp add: ignoreFields_def)
  have h2: "listDepth (NonNullT (ListT (NonNullT (Named ''Int'')))) \<le> 1" using d by simp
  from m d primitive_base_name_no_import [OF h1 h2] show ?thesis by (intro conjI)
qed

text \<open>
  Under two list wrappers the bracket expression leaves brackets in the name, as shown for
  C3, and the field appends an import of that name.
\<close>

lemma nested_primitive_list_imported:
  "fieldImport (GraphQLObjectType ''Board'' [(''grid'', ListT (ListT (Named ''Int'')))]) [] []
     (ListT (ListT (Named ''Int'')))
   = ''import type {[number]} from '' @ [dq] @ ''./[number]'' @ [dq] @ '';'' @ [nl]"
  by (simp add: eval_defs)

subsection \<open>C8: interface types\<close>

text \<open>
  Claim C8 says that the fields of an interface get the rendering of object fields (scalar
  substitution, array suffix, markers stripped) and are always required.  The interface branch
  only substitutes the scalar names: the brackets and the non-null markers stay in the line.
\<close>

theorem interface_field_keeps_markers:
  "generateTypeScriptForType []
     (GraphQLInterfaceType ''Node'' [(''id'', NonNullT (Named ''ID'')), (''tags'', ListT (Named ''String''))])
   = ''export interface Node {'' @ [nl] @ ''  id: string!;'' @ [nl] @ ''  tags: [string];'' @ [nl] @ ''}''"
  by (simp add: eval_defs)

subsection \<open>C9: kinds without a branch\<close>

text \<open>
  Claim C9.  For a named type that is none of object, enum, scalar, interface and union, the
  generator returns the empty text; both passes leave the state as it is, so that the run
  is the same as on the type map without this entry.
\<close>

theorem unhandled_kind_skipped:
  assumes "\<not> isObjectType t" and "\<not> isEnumType t" and "\<not> isScalarType t"
    and "\<not> isInterfaceType t" and "\<not> isUnionType t"
  shows "generateTypeScriptForType enums t = []
    \<and> enumStep ignore outDir st (typeName, t) = st
    \<and> restStep ignore outDir st (typeName, t) = st
    \<and> main ignore outDir (before @ (typeName, t) # after) = main ignore outDir (before @ after)"
proof -
  from assms obtain n fs where t: "t = GraphQLInputObjectType n fs" by (cases t) auto
  have g: "generateTypeScriptForType enums t = []" for enums by (simp add: t)
  have e: "enumStep ignore outDir st (typeName, t) = st" for st by (simp add: enumStep_def t)
  have r: "restStep ignore outDir st (typeName, t) = st" for st by (simp add: restStep_def g)
  show ?thesis by (simp add: g e r main_def enumPass_def restPass_def)
qed

text \<open>
  Claim C9 at an input object type.
\<close>

theorem unhandled_kind_skipped_witness:
  "\<not> isObjectType (GraphQLInputObjectType ''Filter'' [(''q'', Named ''String'')])
   \<and> \<not> isEnumType (GraphQLInputObjectType ''Filter'' [(''q'', Named ''String'')])
   \<and> \<not> isScalarType (GraphQLInputObjectType ''Filter'' [(''q'', Named ''String'')])
   \<and> \<not> isInterfaceType (GraphQLInputObjectType ''Filter'' [(''q'', Named ''String'')])
   \<and> \<not> isUnionType (GraphQLInputObjectType ''Filter'' [(''q'', Named ''String'')])
   \<and> generateTypeScriptForType [] (GraphQLInputObjectType ''Filter'' [(''q'', Named ''String'')]) = []
   \<and> main [] ''out'' ([] @ (''Filter'', GraphQLInputObjectType ''Filter'' [(''q'', Named ''String'')]) # [])
       = main [] ''out'' ([] @ [])"
proof -
  have h: "\<not> isObjectType (GraphQLInputObjectType ''Filter'' [(''q'', Named ''String'')])"
    "\<not> isEnumType (GraphQLInputObjectType ''Filter'' [(''q'', Named ''String'')])"
    "\<not> isScalarType (GraphQLInputObjectType ''Filter'' [(''q'', Named ''String'')])"
    "\<not> isInterfaceType (GraphQLInputObjectType ''Filter'' [(''q'', Named ''String'')])"
    "\<not> isUnionType (GraphQLInputObjectType ''Filter'' [(''q'', Named ''String'')])"
    by simp_all
  from h unhandled_kind_skipped [OF h, of "[]" "[]" "''out''" _ "''Filter''" "[]" "[]"]
  show ?thesis by blast
qed

subsection \<open>C10: deduplication by substring\<close>

text \<open>
  Claim C10.  In one object declaration, a field whose base name occurs inside the text that
  an earlier field has appended to the imports appends nothing itself: the test is
  containment in the accumulated text, not equality of base names.
\<close>

theorem import_deduplication_by_substring:
  assumes "i < j" and "j < length fs"
    and "str_includes (emittedImports type enums [] fs ! i) (cleanedTypeOf (snd (fs ! j)))"
  shows "emittedImports type enums [] fs ! j = []"
proof -
  have "sublist (cleanedTypeOf (snd (fs ! j))) (emittedImports type enums [] fs ! i)"
    using assms(3) by (simp add: str_includes_sublist)
  then have "sublist (cleanedTypeOf (snd (fs ! j)))
      (fst (objectFields type enums [] (take j fs)))"
    using earlier_line_in_imports [OF assms(1,2)] by (rule sublist_order.order.trans)
  then show ?thesis
    using assms(2) by (simp add: emittedImports_nth fieldImport_deduplicated)
qed

text \<open>
  Claim C10 at a field of type \<open>Color\<close> after a field of type \<open>ColorType\<close>: the two base
  names differ, and the second field appends nothing.
\<close>

theorem import_deduplication_by_substring_witness:
  "(0::nat) < 1
   \<and> 1 < length [(''kind'', Named ''ColorType''), (''color'', Named ''Color'')]
   \<and> str_includes
       (emittedImports (GraphQLObjectType ''Item'' []) [''Color''] []
          [(''kind'', Named ''ColorType''), (''color'', Named ''Color'')] ! 0)
       (cleanedTypeOf (snd ([(''kind'', Named ''ColorType''), (''color'', Named ''Color'')] ! 1)))
   \<and> cleanedTypeOf (Named ''Color'') \<noteq> cleanedTypeOf (Named ''ColorType'')
   \<and> emittedImports (GraphQLObjectType ''Item'' []) [''Color''] []
        [(''kind'', Named ''ColorType''), (''color'', Named ''Color'')] ! 1 = []"
proof -
  have h1: "(0::nat) < 1" by simp
  have h2: "1 < length [(''kind'', Named ''ColorType''), (''color'', Named ''Color'')]" by simp
  have h3: "str_includes
       (emittedImports (GraphQLObjectType ''Item'' []) [''Color''] []
          [(''kind'', Named ''ColorType''), (''color'', Named ''Color'')] ! 0)
       (cleanedTypeOf (snd ([(''kind'', Named ''ColorType''), (''color'', Named ''Color'')] ! 1)))"
    by (simp add: eval_defs)
  have h4: "cleanedTypeOf (Named ''Color'') \<noteq> cleanedTypeOf (Named ''ColorType'')"
    by (simp add: eval_defs)
  from h1 h2 h3 h4 import_deduplication_by_substring [OF h1 h2 h3] show ?thesis by blast
qed

end
